theory Spec2Isabelle
  imports Main "HOL-Library.Signed_Division"
begin

section \<open>Diff engine\<close>

text \<open>
  The application component (\<^verbatim>\<open>src/unnamed/part_000\<close>, line 59) calls \<^verbatim>\<open>calculateDiff(baseText, panel.text)\<close>,
  imported from \<^verbatim>\<open>./utils/diff\<close>; \<^verbatim>\<open>EditorPanel.tsx\<close> consumes its result, a list of
  \<^verbatim>\<open>DiffLine\<close> objects with the fields \<^verbatim>\<open>type\<close> and \<^verbatim>\<open>text\<close>, and the three
  \<^verbatim>\<open>DiffType\<close> tags it switches on (lines 21-41, 131-133).
\<close>

datatype DiffType = Added | Removed | Unchanged

record DiffLine =
  d_type :: DiffType
  d_text :: string

text \<open>
  Modelled from the spec: the body of \<^verbatim>\<open>calculateDiff\<close> (\<^verbatim>\<open>utils/diff\<close>) is not among the
  sources. The specification describes it as the standard dynamic-programming table of
  longest-common-subsequence lengths over the line counts of base and variant, with exact
  line equality as the match predicate. \<open>lcsTable B V i j\<close> is the table cell for the first
  \<open>i\<close> base lines and the first \<open>j\<close> variant lines.
\<close>

fun lcsTable :: "string list \<Rightarrow> string list \<Rightarrow> nat \<Rightarrow> nat \<Rightarrow> nat" where
  "lcsTable B V 0 j = 0"
| "lcsTable B V (Suc i) 0 = 0"
| "lcsTable B V (Suc i) (Suc j) =
     (if B ! i = V ! j then Suc (lcsTable B V i j)
      else max (lcsTable B V i (Suc j)) (lcsTable B V (Suc i) j))"

text \<open>
  Modelled from the spec: the backtrace over the table, from cell \<open>(n, m)\<close> to cell
  \<open>(0, 0)\<close>, each step putting its line in front of what has been emitted so far. An
  identical pair of lines is emitted as Unchanged. Otherwise, where the cell above and the
  cell to the left tie, the insertion is consumed first, which places the Added line
  behind the Removed lines of the same block in the output: the deletion comes out before
  the insertion, as the specification's tie-break policy asks.
\<close>

fun backtrace ::
  "string list \<Rightarrow> string list \<Rightarrow> nat \<Rightarrow> nat \<Rightarrow> DiffLine list \<Rightarrow> DiffLine list" where
  "backtrace B V 0 0 acc = acc"
| "backtrace B V (Suc i) 0 acc =
     backtrace B V i 0 (\<lparr>d_type = Removed, d_text = B ! i\<rparr> # acc)"
| "backtrace B V 0 (Suc j) acc =
     backtrace B V 0 j (\<lparr>d_type = Added, d_text = V ! j\<rparr> # acc)"
| "backtrace B V (Suc i) (Suc j) acc =
     (if B ! i = V ! j then
        backtrace B V i j (\<lparr>d_type = Unchanged, d_text = B ! i\<rparr> # acc)
      else if lcsTable B V (Suc i) j \<ge> lcsTable B V i (Suc j) then
        backtrace B V (Suc i) j (\<lparr>d_type = Added, d_text = V ! j\<rparr> # acc)
      else
        backtrace B V i (Suc j) (\<lparr>d_type = Removed, d_text = B ! i\<rparr> # acc))"

text \<open>
  Modelled from the spec: \<open>computeDiff(base, variant)\<close> on two line sequences, the contract
  of section 4.1.
\<close>

definition computeDiff :: "string list \<Rightarrow> string list \<Rightarrow> DiffLine list" where
  "computeDiff B V = backtrace B V (length B) (length V) []"

text \<open>
  The two projections of an edit script: the lines a consumer counts as base lines
  (Removed or Unchanged) and as variant lines (Added or Unchanged), in emission order;
  \<^verbatim>\<open>EditorPanel.tsx\<close> numbers lines this way (lines 138-139).
\<close>

definition baseLines :: "DiffLine list \<Rightarrow> string list" where
  "baseLines ds =
     map d_text (filter (\<lambda>d. d_type d = Removed \<or> d_type d = Unchanged) ds)"

definition variantLines :: "DiffLine list \<Rightarrow> string list" where
  "variantLines ds =
     map d_text (filter (\<lambda>d. d_type d = Added \<or> d_type d = Unchanged) ds)"

text \<open>
  The contiguous blocks of changed lines of an edit script: the maximal runs of lines
  between two Unchanged lines (a run may be empty). A block is in order when it is its
  Removed lines followed by its Added lines.
\<close>

fun changedBlocks :: "DiffLine list \<Rightarrow> DiffLine list list" where
  "changedBlocks [] = [[]]"
| "changedBlocks (d # ds) =
     (if d_type d = Unchanged then [] # changedBlocks ds
      else (case changedBlocks ds of
              [] \<Rightarrow> [[d]]
            | b # bs \<Rightarrow> (d # b) # bs))"

definition removedThenAdded :: "DiffLine list \<Rightarrow> bool" where
  "removedThenAdded blk =
     (blk = filter (\<lambda>d. d_type d = Removed) blk @ filter (\<lambda>d. d_type d = Added) blk)"

definition blocksOrdered :: "DiffLine list \<Rightarrow> bool" where
  "blocksOrdered ds = list_all removedThenAdded (changedBlocks ds)"

text \<open>An edit script in which no Added line is directly followed by a Removed line.\<close>

fun noAddedThenRemoved :: "DiffLine list \<Rightarrow> bool" where
  "noAddedThenRemoved [] = True"
| "noAddedThenRemoved [d] = True"
| "noAddedThenRemoved (d # e # ds) =
     (\<not> (d_type d = Added \<and> d_type e = Removed) \<and> noAddedThenRemoved (e # ds))"

text \<open>
  The invariant of the backtrace: when the line emitted last (the head of the
  accumulator) is Removed, the table strictly grows from the cell on the left to the
  current cell, so the next changed line to be put in front cannot be an Added one.
\<close>

definition removedGuard ::
  "string list \<Rightarrow> string list \<Rightarrow> nat \<Rightarrow> nat \<Rightarrow> DiffLine list \<Rightarrow> bool" where
  "removedGuard B V i j acc =
     (case acc of
        [] \<Rightarrow> True
      | d # _ \<Rightarrow>
          d_type d \<noteq> Removed \<or>
          (case j of 0 \<Rightarrow> True | Suc j' \<Rightarrow> lcsTable B V i j' < lcsTable B V i j))"

section \<open>JavaScript values\<close>

text \<open>
  The exceptions the modelled code can raise: \<^verbatim>\<open>new RegExp\<close> throws a SyntaxError on a
  pattern that does not compile, and reading a property of \<^verbatim>\<open>undefined\<close> throws a
  TypeError.
\<close>

datatype js_error = SyntaxError | TypeError

text \<open>
  \<^verbatim>\<open>activeMatchIndex\<close> is a JavaScript number. The code only ever adds and subtracts
  integers and takes remainders, which is exact on the integers in range, so a number is
  an integer or NaN. The remainder operator \<^verbatim>\<open>%\<close> takes the sign of the dividend
  (\<open>smod\<close>) and yields NaN for a zero divisor. The sign of a zero result is not
  represented (\<^verbatim>\<open>-0 === 0\<close> holds in JavaScript).
\<close>

datatype jsnum = Num int | NaN

fun js_add :: "jsnum \<Rightarrow> jsnum \<Rightarrow> jsnum" where
  "js_add (Num x) (Num y) = Num (x + y)"
| "js_add _ _ = NaN"

fun js_sub :: "jsnum \<Rightarrow> jsnum \<Rightarrow> jsnum" where
  "js_sub (Num x) (Num y) = Num (x - y)"
| "js_sub _ _ = NaN"

fun js_rem :: "jsnum \<Rightarrow> jsnum \<Rightarrow> jsnum" where
  "js_rem (Num x) (Num y) = (if y = 0 then NaN else Num (x smod y))"
| "js_rem _ _ = NaN"

text \<open>Template-literal rendering of a non-negative integer: its decimal digits.\<close>

definition digitChar :: "nat \<Rightarrow> char" where
  "digitChar n = char_of (48 + n)"

function showNat :: "nat \<Rightarrow> string" where
  "showNat n = (if n < 10 then [digitChar n] else showNat (n div 10) @ [digitChar (n mod 10)])"
  by pat_completeness auto
termination
  by (relation "measure (\<lambda>n. n)") auto

declare showNat.simps [simp del]

text \<open>\<^verbatim>\<open>Array.prototype.findIndex\<close>: the first index that satisfies the predicate; \<open>None\<close> is -1.\<close>

fun findIndex :: "('a \<Rightarrow> bool) \<Rightarrow> 'a list \<Rightarrow> nat option" where
  "findIndex P [] = None"
| "findIndex P (x # xs) = (if P x then Some 0 else map_option Suc (findIndex P xs))"

text \<open>
  \<^verbatim>\<open>xs[i]\<close> for a number \<open>i\<close>: the element when \<open>i\<close> is an index of the array,
  \<^verbatim>\<open>undefined\<close> (\<open>None\<close>) otherwise, also for NaN.
\<close>

fun js_index :: "'a list \<Rightarrow> jsnum \<Rightarrow> 'a option" where
  "js_index xs (Num i) = (if 0 \<le> i \<and> nat i < length xs then Some (xs ! nat i) else None)"
| "js_index xs NaN = None"

section \<open>Data model\<close>

text \<open>
  The types imported from \<^verbatim>\<open>./types\<close>, with the fields the component reads and writes:
  \<^verbatim>\<open>PanelData {id, text, title}\<close> (lines 10-13), \<^verbatim>\<open>Match {panelId, start, end}\<close>
  (lines 80-84) and \<^verbatim>\<open>FindOptions {caseSensitive, useRegex}\<close> (line 28). Strings are
  lists of code units.
\<close>

record PanelData =
  p_id :: string
  p_text :: string
  p_title :: string

record Match =
  m_panelId :: string
  m_start :: nat
  m_end :: nat

record FindOptions =
  caseSensitive :: bool
  useRegex :: bool

text \<open>
  What the component uses of the host: the regular expression engine of JavaScript and the
  helper \<^verbatim>\<open>escapeRegExp\<close> of \<^verbatim>\<open>./utils/regex\<close>, which is not among the sources. They are
  parameters of the model; \<open>'r\<close> is the type of compiled expressions.
  \<^item> \<open>newRegExp pattern flags\<close> is \<^verbatim>\<open>new RegExp(pattern, flags)\<close>, which throws on an
    invalid pattern;
  \<^item> \<open>str_matchAll text regex\<close> is \<^verbatim>\<open>text.matchAll(regex)\<close>, each result with its
    optional \<^verbatim>\<open>index\<close>, the matched string \<^verbatim>\<open>match[0]\<close>, the captures
    \<^verbatim>\<open>match[1]\<close>, \<^verbatim>\<open>match[2]\<close>, ... (\<open>None\<close> for a group that did not take part) and the
    named groups \<^verbatim>\<open>match.groups\<close> (\<open>None\<close> when the expression has none);
  \<^item> \<open>str_replace text regex replacement\<close> is \<^verbatim>\<open>text.replace(regex, replacement)\<close>.
\<close>

record RegExpMatchArray =
  rm_index :: "nat option"
  rm_text :: string
  rm_captures :: "string option list"
  rm_groups :: "(string \<times> string option) list option"

record 'r js_env =
  escapeRegExp :: "string \<Rightarrow> string"
  newRegExp :: "string \<Rightarrow> string \<Rightarrow> js_error + 'r"
  str_matchAll :: "string \<Rightarrow> 'r \<Rightarrow> RegExpMatchArray list"
  str_replace :: "string \<Rightarrow> 'r \<Rightarrow> string \<Rightarrow> string"

text \<open>
  What \<^verbatim>\<open>text.replace(regex, replaceValue)\<close> does in JavaScript for a global expression
  and a string \<open>replaceValue\<close>, given the results the expression yields on the text (the
  ones \<^verbatim>\<open>matchAll\<close> lists). The string is a replacement pattern: \<open>getSubstitution\<close>
  expands \<^verbatim>\<open>$$\<close> to a dollar sign, \<^verbatim>\<open>$&\<close> to the matched string, \<^verbatim>\<open>$`\<close> and \<^verbatim>\<open>$'\<close> to
  the text before and after the match, \<^verbatim>\<open>$n\<close> and \<^verbatim>\<open>$nn\<close> to a capture and \<^verbatim>\<open>$<name>\<close>
  to a named group, and copies every other character. \<open>spliceResults\<close> copies the text
  between the matches and puts the expansion in the place of each match.
\<close>

definition isDecimalDigit :: "char \<Rightarrow> bool" where
  "isDecimalDigit c = (48 \<le> (of_char c :: nat) \<and> (of_char c :: nat) \<le> 57)"

definition digitValue :: "char \<Rightarrow> nat" where
  "digitValue c = of_char c - 48"

definition captureRef :: "string option list \<Rightarrow> nat \<Rightarrow> string \<Rightarrow> string" where
  "captureRef captures index ref =
     (if 1 \<le> index \<and> index \<le> length captures then
        (case captures ! (index - 1) of None \<Rightarrow> [] | Some capture \<Rightarrow> capture)
      else ref)"

fun getSubstitution ::
  "string \<Rightarrow> string \<Rightarrow> nat \<Rightarrow> string option list \<Rightarrow> (string \<times> string option) list option \<Rightarrow>
   string \<Rightarrow> string" where
  "getSubstitution matched str position captures namedCaptures [] = []"
| "getSubstitution matched str position captures namedCaptures [c] = [c]"
| "getSubstitution matched str position captures namedCaptures (c # d # rest) =
     (if c \<noteq> CHR ''$'' then
        c # getSubstitution matched str position captures namedCaptures (d # rest)
      else if d = CHR ''$'' then
        CHR ''$'' # getSubstitution matched str position captures namedCaptures rest
      else if d = CHR ''&'' then
        matched @ getSubstitution matched str position captures namedCaptures rest
      else if d = CHR 0x60 then
        take position str @ getSubstitution matched str position captures namedCaptures rest
      else if d = CHR 0x27 then
        drop (position + length matched) str @
        getSubstitution matched str position captures namedCaptures rest
      else if isDecimalDigit d then
        (case rest of
           [] \<Rightarrow> captureRef captures (digitValue d) [c, d]
         | e # rest' \<Rightarrow>
             if isDecimalDigit e \<and> 10 * digitValue d + digitValue e \<le> length captures then
               captureRef captures (10 * digitValue d + digitValue e) [c, d, e] @
               getSubstitution matched str position captures namedCaptures rest'
             else
               captureRef captures (digitValue d) [c, d] @
               getSubstitution matched str position captures namedCaptures (e # rest'))
      else if d = CHR ''<'' then
        (case namedCaptures of
           None \<Rightarrow> [c, d] @ getSubstitution matched str position captures namedCaptures rest
         | Some groups \<Rightarrow>
             if CHR ''>'' \<in> set rest then
               (case map_of groups (takeWhile (\<lambda>x. x \<noteq> CHR ''>'') rest) of
                  Some (Some capture) \<Rightarrow> capture
                | _ \<Rightarrow> []) @
               getSubstitution matched str position captures namedCaptures
                 (drop (Suc (length (takeWhile (\<lambda>x. x \<noteq> CHR ''>'') rest))) rest)
             else [c, d] @ getSubstitution matched str position captures namedCaptures rest)
      else
        c # getSubstitution matched str position captures namedCaptures (d # rest))"

fun spliceResults :: "string \<Rightarrow> nat \<Rightarrow> RegExpMatchArray list \<Rightarrow> string \<Rightarrow> string" where
  "spliceResults S nextSourcePosition [] replaceValue = drop nextSourcePosition S"
| "spliceResults S nextSourcePosition (result # results) replaceValue =
     (let matched = rm_text result;
          position = min (case rm_index result of Some i \<Rightarrow> i | None \<Rightarrow> 0) (length S);
          replacement = getSubstitution matched S position (rm_captures result)
                          (rm_groups result) replaceValue
      in if position \<ge> nextSourcePosition then
           take (position - nextSourcePosition) (drop nextSourcePosition S) @ replacement @
           spliceResults S (position + length matched) results replaceValue
         else spliceResults S nextSourcePosition results replaceValue)"

definition jsReplace :: "string \<Rightarrow> RegExpMatchArray list \<Rightarrow> string \<Rightarrow> string" where
  "jsReplace S results replaceValue = spliceResults S 0 results replaceValue"

text \<open>
  A scrollable element as far as the component touches it: its two scroll offsets. A
  write stores the value written.
\<close>

record scroll_el =
  scrollTop :: int
  scrollLeft :: int

text \<open>
  The state of the component. Panel objects live in a store: \<open>heap\<close> lists the objects
  allocated so far, a reference is an index into it, and \<open>panels\<close> is the array of
  references held by the \<^verbatim>\<open>panels\<close> state variable. The code never mutates a panel
  object; an object literal \<^verbatim>\<open>{ ...p, text: t }\<close> allocates a new one. Two array
  entries are the same instance exactly when they are the same reference.

  The remaining fields are the state variables and refs of lines 16-34 that the modelled
  handlers use, and the two queues of the host's event loop: the timeouts that are
  pending (each will run \<^verbatim>\<open>setSyncingPanelIds([])\<close>) and the number of queued
  animation-frame callbacks (each will run \<^verbatim>\<open>isSyncingScroll.current = false\<close>).
\<close>

type_synonym ref = nat

record app_state =
  heap :: "PanelData list"
  panels :: "ref list"
  isFindVisible :: bool
  findQuery :: string
  replaceQuery :: string
  findOptions :: FindOptions
  matches :: "Match list"
  activeMatchIndex :: jsnum
  syncingPanelIds :: "string list"
  panelScrollRefs :: "scroll_el option list"
  isSyncingScroll :: bool
  syncIndicatorTimer :: "nat option"
  pendingTimeouts :: "nat list"
  nextTimerId :: nat
  pendingFrames :: nat

definition panelObjs :: "app_state \<Rightarrow> PanelData list" where
  "panelObjs st = map (\<lambda>a. heap st ! a) (panels st)"

text \<open>Every reference of the panel array points to an allocated object.\<close>

definition refsValid :: "app_state \<Rightarrow> bool" where
  "refsValid st = list_all (\<lambda>a. a < length (heap st)) (panels st)"

text \<open>
  \<^verbatim>\<open>prev.map(p => cond(p) ? { ...p, ... } : p)\<close> over the store: the callback \<open>f\<close>
  returns \<open>Some\<close> of the new object literal, which is allocated at the next free
  address, or \<open>None\<close> when it returns its argument, and then the entry keeps its
  reference.
\<close>

fun mapPanels ::
  "(PanelData \<Rightarrow> PanelData option) \<Rightarrow> ref list \<Rightarrow> PanelData list \<Rightarrow> ref list \<times> PanelData list" where
  "mapPanels f [] h = ([], h)"
| "mapPanels f (a # as) h =
     (case f (h ! a) of
        None \<Rightarrow> (let (bs, h') = mapPanels f as h in (a # bs, h'))
      | Some p' \<Rightarrow> (let (bs, h') = mapPanels f as (h @ [p']) in (length h # bs, h')))"

section \<open>The component's effects and handlers\<close>

text \<open>
  A handler is a function from the component's state to the state after the updates it
  requests. \<^verbatim>\<open>addPanel\<close> and \<^verbatim>\<open>removePanel\<close> test the \<^verbatim>\<open>panels\<close> array of the render
  that created them and hand \<^verbatim>\<open>setPanels\<close> an updater of the pending array \<^verbatim>\<open>prev\<close>;
  the two arrays differ when several calls are batched before the next render, so the
  model takes them separately. The find and replace handlers are modelled for one call
  per render, where the two arrays are the same. A handler that can throw returns a sum,
  \<open>Inl\<close> the exception. Of the component only what the find,
  replace, panel and scroll logic reads or writes is modelled; the theme, layout and
  summary state, the diff effect and the rendering are left out.
\<close>

subsection \<open>Panels\<close>

text \<open>
  \<^verbatim>\<open>initialPanels\<close> (lines 10-13); the two identifiers come from \<^verbatim>\<open>crypto.randomUUID()\<close>
  and are parameters. The initial values of the state variables are those of lines 16-34.
\<close>

definition initialPanels :: "string \<Rightarrow> string \<Rightarrow> PanelData list" where
  "initialPanels id0 id1 =
     [\<lparr>p_id = id0,
       p_text = ''const Greeter = (name) => {'' @ [CHR 0x0A] @
                ''  console.log('' @ [CHR 0x22] @ ''Hello, '' @ [CHR 0x22] @ '' + name);'' @ [CHR 0x0A] @
                ''};'' @ [CHR 0x0A] @ [CHR 0x0A] @
                ''Greeter('' @ [CHR 0x22] @ ''World'' @ [CHR 0x22] @ '');'',
       p_title = ''Original JavaScript''\<rparr>,
      \<lparr>p_id = id1,
       p_text = ''function Greeter(name) {'' @ [CHR 0x0A] @
                ''  // A friendly greeting'' @ [CHR 0x0A] @
                ''  console.log(`Hello, ${name}!`);'' @ [CHR 0x0A] @
                ''}'' @ [CHR 0x0A] @ [CHR 0x0A] @
                ''Greeter('' @ [CHR 0x22] @ ''Universe'' @ [CHR 0x22] @ '');'' @ [CHR 0x0A],
       p_title = ''Refactored TypeScript''\<rparr>]"

definition initialState :: "string \<Rightarrow> string \<Rightarrow> app_state" where
  "initialState id0 id1 =
     \<lparr>heap = initialPanels id0 id1,
      panels = [0, 1],
      isFindVisible = False,
      findQuery = [],
      replaceQuery = [],
      findOptions = \<lparr>caseSensitive = False, useRegex = False\<rparr>,
      matches = [],
      activeMatchIndex = Num (- 1),
      syncingPanelIds = [],
      panelScrollRefs = [],
      isSyncingScroll = False,
      syncIndicatorTimer = None,
      pendingTimeouts = [],
      nextTimerId = 1,
      pendingFrames = 0\<rparr>"

text \<open>
  \<^verbatim>\<open>addPanel\<close> (lines 125-134). \<open>renderedPanels\<close> is the \<^verbatim>\<open>panels\<close> array of the closure,
  which the guard and the title read (lines 126, 130); \<open>prev\<close> is the state the updater
  of line 132 is applied to; \<open>newId\<close> is the result of \<^verbatim>\<open>crypto.randomUUID()\<close>.
\<close>

definition addPanel :: "string \<Rightarrow> ref list \<Rightarrow> app_state \<Rightarrow> app_state" where
  "addPanel newId renderedPanels prev =
     (if length renderedPanels < 4 then
        (let newPanel = \<lparr>p_id = newId, p_text = [],
                          p_title = ''Comparison '' @ showNat (length renderedPanels)\<rparr>
         in prev\<lparr>heap := heap prev @ [newPanel], panels := panels prev @ [length (heap prev)]\<rparr>)
      else prev)"

text \<open>
  \<^verbatim>\<open>removePanel\<close> (lines 136-141). The guard reads the closure's array (line 137), the
  updater drops the last entry of \<open>prev\<close> (line 138: \<^verbatim>\<open>slice(0, -1)\<close>), and the scroll
  refs lose their last entry at once (line 139).
\<close>

definition removePanel :: "ref list \<Rightarrow> app_state \<Rightarrow> app_state" where
  "removePanel renderedPanels prev =
     (if length renderedPanels > 2 then
        prev\<lparr>panels := butlast (panels prev), panelScrollRefs := butlast (panelScrollRefs prev)\<rparr>
      else prev)"

text \<open>\<^verbatim>\<open>updatePanelText\<close> and \<^verbatim>\<open>updatePanelTitle\<close> (lines 143-149).\<close>

definition updatePanelText :: "string \<Rightarrow> string \<Rightarrow> app_state \<Rightarrow> app_state" where
  "updatePanelText pid newText st =
     (let (ps, h) = mapPanels (\<lambda>p. if p_id p = pid then Some (p\<lparr>p_text := newText\<rparr>) else None)
                      (panels st) (heap st)
      in st\<lparr>heap := h, panels := ps\<rparr>)"

definition updatePanelTitle :: "string \<Rightarrow> string \<Rightarrow> app_state \<Rightarrow> app_state" where
  "updatePanelTitle pid newTitle st =
     (let (ps, h) = mapPanels (\<lambda>p. if p_id p = pid then Some (p\<lparr>p_title := newTitle\<rparr>) else None)
                      (panels st) (heap st)
      in st\<lparr>heap := h, panels := ps\<rparr>)"

subsection \<open>Find matches\<close>

text \<open>
  The loop over \<^verbatim>\<open>panel.text.matchAll(regex)\<close> (lines 78-86): a result whose
  \<^verbatim>\<open>index\<close> is undefined is skipped.
\<close>

fun pushMatches :: "string \<Rightarrow> RegExpMatchArray list \<Rightarrow> Match list" where
  "pushMatches pid [] = []"
| "pushMatches pid (m # ms) =
     (case rm_index m of
        Some i \<Rightarrow> \<lparr>m_panelId = pid, m_start = i, m_end = i + length (rm_text m)\<rparr> # pushMatches pid ms
      | None \<Rightarrow> pushMatches pid ms)"

text \<open>
  The body of the \<^verbatim>\<open>try\<close> block of the Find Matches effect up to \<^verbatim>\<open>setMatches\<close>
  (lines 74-87): \<open>Inl\<close> is the exception that reaches the \<^verbatim>\<open>catch\<close>, \<open>Inr\<close> the list
  \<^verbatim>\<open>allMatches\<close>.
\<close>

definition findMatchesTry :: "'r js_env \<Rightarrow> app_state \<Rightarrow> js_error + Match list" where
  "findMatchesTry env st =
     (let query = (if useRegex (findOptions st) then findQuery st
                   else escapeRegExp env (findQuery st))
      in case newRegExp env query (if caseSensitive (findOptions st) then ''g'' else ''gi'') of
           Inl e \<Rightarrow> Inl e
         | Inr regex \<Rightarrow>
             Inr (concat (map (\<lambda>panel. pushMatches (p_id panel) (str_matchAll env (p_text panel) regex))
                             (panelObjs st))))"

text \<open>
  The Find Matches effect (lines 65-96). The \<^verbatim>\<open>catch\<close> handles every exception of the
  \<^verbatim>\<open>try\<close> block, so the effect always completes with a state.
\<close>

definition findMatchesEffect :: "'r js_env \<Rightarrow> app_state \<Rightarrow> app_state" where
  "findMatchesEffect env st =
     (if findQuery st = [] \<or> \<not> isFindVisible st then
        st\<lparr>matches := [], activeMatchIndex := Num (- 1)\<rparr>
      else
        (case findMatchesTry env st of
           Inr allMatches \<Rightarrow>
             st\<lparr>matches := allMatches,
                activeMatchIndex := (if length allMatches > 0 then Num 0 else Num (- 1))\<rparr>
         | Inl error \<Rightarrow>
             st\<lparr>matches := [], activeMatchIndex := Num (- 1)\<rparr>))"

subsection \<open>Navigation and replacement\<close>

text \<open>\<^verbatim>\<open>handleFindNext\<close> and \<^verbatim>\<open>handleFindPrev\<close> (lines 192-193).\<close>

definition handleFindNext :: "app_state \<Rightarrow> app_state" where
  "handleFindNext st =
     st\<lparr>activeMatchIndex :=
          js_rem (js_add (activeMatchIndex st) (Num 1)) (Num (int (length (matches st))))\<rparr>"

definition handleFindPrev :: "app_state \<Rightarrow> app_state" where
  "handleFindPrev st =
     st\<lparr>activeMatchIndex :=
          js_rem (js_add (js_sub (activeMatchIndex st) (Num 1)) (Num (int (length (matches st)))))
                 (Num (int (length (matches st))))\<rparr>"

text \<open>
  \<^verbatim>\<open>handleReplace\<close> (lines 195-203). \<^verbatim>\<open>match.panelId\<close> throws when
  \<^verbatim>\<open>matches[activeMatchIndex]\<close> is undefined; \<^verbatim>\<open>substring(0, start)\<close> and
  \<^verbatim>\<open>substring(end)\<close> are \<open>take\<close> and \<open>drop\<close>.
\<close>

definition handleReplace :: "app_state \<Rightarrow> js_error + app_state" where
  "handleReplace st =
     (if activeMatchIndex st = Num (- 1) \<or> length (matches st) = 0 then Inr st
      else
        (case js_index (matches st) (activeMatchIndex st) of
           None \<Rightarrow> Inl TypeError
         | Some match \<Rightarrow>
             (case find (\<lambda>p. p_id p = m_panelId match) (panelObjs st) of
                None \<Rightarrow> Inr st
              | Some panel \<Rightarrow>
                  (let newText = take (m_start match) (p_text panel) @ replaceQuery st @
                                 drop (m_end match) (p_text panel)
                   in Inr (updatePanelText (p_id panel) newText st)))))"

text \<open>
  The \<^verbatim>\<open>forEach\<close> of \<^verbatim>\<open>handleReplaceAll\<close> (lines 210-217), which fills the map
  \<^verbatim>\<open>panelUpdates\<close>; the expression is compiled anew for every panel, and an exception of
  \<^verbatim>\<open>new RegExp\<close> leaves the handler.
\<close>

fun collectUpdates ::
  "'r js_env \<Rightarrow> app_state \<Rightarrow> PanelData list \<Rightarrow> (string \<rightharpoonup> string) \<Rightarrow> js_error + (string \<rightharpoonup> string)" where
  "collectUpdates env st [] panelUpdates = Inr panelUpdates"
| "collectUpdates env st (panel # rest) panelUpdates =
     (let query = (if useRegex (findOptions st) then findQuery st
                   else escapeRegExp env (findQuery st))
      in case newRegExp env query (if caseSensitive (findOptions st) then ''g'' else ''gi'') of
           Inl e \<Rightarrow> Inl e
         | Inr regex \<Rightarrow>
             (let newText = str_replace env (p_text panel) regex (replaceQuery st)
              in collectUpdates env st rest
                   (if newText \<noteq> p_text panel then panelUpdates(p_id panel \<mapsto> newText)
                    else panelUpdates)))"

text \<open>
  \<^verbatim>\<open>handleReplaceAll\<close> (lines 205-220). The updater of \<^verbatim>\<open>setPanels\<close> is applied to the
  panel array of the same state.
\<close>

definition handleReplaceAll :: "'r js_env \<Rightarrow> app_state \<Rightarrow> js_error + app_state" where
  "handleReplaceAll env st =
     (if findQuery st = [] \<or> length (matches st) = 0 then Inr st
      else
        (case collectUpdates env st (panelObjs st) Map.empty of
           Inl e \<Rightarrow> Inl e
         | Inr panelUpdates \<Rightarrow>
             (let (ps, h) = mapPanels (\<lambda>p. case panelUpdates (p_id p) of
                                              Some t \<Rightarrow> Some (p\<lparr>p_text := t\<rparr>)
                                            | None \<Rightarrow> None)
                              (panels st) (heap st)
              in Inr (st\<lparr>heap := h, panels := ps\<rparr>))))"

subsection \<open>Scroll synchronisation\<close>

text \<open>
  The \<^verbatim>\<open>forEach\<close> over \<^verbatim>\<open>panelScrollRefs.current\<close> (lines 170-176), from index \<open>i\<close> on:
  the refs after the writes, the list \<^verbatim>\<open>idsToSync\<close>, and the exception, if any, of reading
  \<^verbatim>\<open>panels[index].id\<close> where the panel array has no entry \<open>index\<close> (the loop stops there,
  after the two writes to that element).
\<close>

fun fanOut ::
  "PanelData list \<Rightarrow> nat \<Rightarrow> int \<Rightarrow> int \<Rightarrow> nat \<Rightarrow> scroll_el option list \<Rightarrow>
   scroll_el option list \<times> string list \<times> js_error option" where
  "fanOut ps k sTop sLeft i [] = ([], [], None)"
| "fanOut ps k sTop sLeft i (r # rs) =
     (case r of
        Some el \<Rightarrow>
          (if i \<noteq> k then
             (let el' = el\<lparr>scrollTop := sTop, scrollLeft := sLeft\<rparr>
              in if i < length ps then
                   (let (rs', ids, err) = fanOut ps k sTop sLeft (Suc i) rs
                    in (Some el' # rs', p_id (ps ! i) # ids, err))
                 else (Some el' # rs, [], Some TypeError))
           else (let (rs', ids, err) = fanOut ps k sTop sLeft (Suc i) rs in (r # rs', ids, err)))
      | None \<Rightarrow> (let (rs', ids, err) = fanOut ps k sTop sLeft (Suc i) rs in (r # rs', ids, err)))"

text \<open>
  The host's timers: \<^verbatim>\<open>window.setTimeout\<close> returns a fresh positive handle and queues the
  callback; \<^verbatim>\<open>clearTimeout\<close> removes a pending one.
\<close>

definition clearTimeout :: "nat \<Rightarrow> app_state \<Rightarrow> app_state" where
  "clearTimeout t st = st\<lparr>pendingTimeouts := removeAll t (pendingTimeouts st)\<rparr>"

definition setTimeout :: "app_state \<Rightarrow> nat \<times> app_state" where
  "setTimeout st =
     (nextTimerId st,
      st\<lparr>pendingTimeouts := pendingTimeouts st @ [nextTimerId st],
         nextTimerId := Suc (nextTimerId st)\<rparr>)"

definition requestAnimationFrame :: "app_state \<Rightarrow> app_state" where
  "requestAnimationFrame st = st\<lparr>pendingFrames := Suc (pendingFrames st)\<rparr>"

text \<open>
  \<^verbatim>\<open>handleScroll\<close> (lines 159-190). The result is the state the handler leaves behind and
  the exception, if one sLeft the handler.
\<close>

definition handleScroll ::
  "string \<Rightarrow> int \<Rightarrow> int \<Rightarrow> app_state \<Rightarrow> js_error option \<times> app_state" where
  "handleScroll scrolledPanelId sTop sLeft st =
     (if isSyncingScroll st then (None, st)
      else
        (let st1 = st\<lparr>isSyncingScroll := True\<rparr>
         in case findIndex (\<lambda>p. p_id p = scrolledPanelId) (panelObjs st1) of
              None \<Rightarrow> (None, requestAnimationFrame st1)
            | Some scrolledPanelIndex \<Rightarrow>
                (case fanOut (panelObjs st1) scrolledPanelIndex sTop sLeft 0 (panelScrollRefs st1) of
                   (refs, idsToSync, Some err) \<Rightarrow> (Some err, st1\<lparr>panelScrollRefs := refs\<rparr>)
                 | (refs, idsToSync, None) \<Rightarrow>
                     (let st2 = st1\<lparr>panelScrollRefs := refs, syncingPanelIds := idsToSync\<rparr>;
                          st3 = (case syncIndicatorTimer st2 of
                                   Some t \<Rightarrow> if t \<noteq> 0 then clearTimeout t st2 else st2
                                 | None \<Rightarrow> st2);
                          (t', st4) = setTimeout st3;
                          st5 = st4\<lparr>syncIndicatorTimer := Some t'\<rparr>
                      in (None, requestAnimationFrame st5)))))"

text \<open>
  The host runs the queued animation-frame callbacks at the next frame, and a pending
  timeout when it expires.
\<close>

definition runAnimationFrame :: "app_state \<Rightarrow> app_state" where
  "runAnimationFrame st =
     (if pendingFrames st > 0 then st\<lparr>isSyncingScroll := False, pendingFrames := 0\<rparr> else st)"

definition fireTimeout :: "nat \<Rightarrow> app_state \<Rightarrow> app_state" where
  "fireTimeout t st =
     (if t \<in> set (pendingTimeouts st) then
        st\<lparr>pendingTimeouts := removeAll t (pendingTimeouts st), syncingPanelIds := []\<rparr>
      else st)"

section \<open>Runs of the component\<close>

text \<open>The bounds on the panel collection.\<close>

definition panelCountOk :: "app_state \<Rightarrow> bool" where
  "panelCountOk st = (2 \<le> length (panels st) \<and> length (panels st) \<le> 4)"


text \<open>
  What the host does to the scroll coordinator: it delivers scroll events, runs the
  animation frame, and fires timeouts. An exception of a handler is reported by the host
  and the state stays as the handler left it.
\<close>

datatype host_event = Scroll string int int | AnimationFrame | Timeout nat

fun hostStep :: "host_event \<Rightarrow> app_state \<Rightarrow> app_state" where
  "hostStep (Scroll pid sTop sLeft) st = snd (handleScroll pid sTop sLeft st)"
| "hostStep AnimationFrame st = runAnimationFrame st"
| "hostStep (Timeout t) st = fireTimeout t st"

fun hostRun :: "host_event list \<Rightarrow> app_state \<Rightarrow> app_state" where
  "hostRun [] st = st"
| "hostRun (ev # evs) st = hostRun evs (hostStep ev st)"

text \<open>
  React keeps a ref callback's element only while its panel is rendered: every entry of
  \<^verbatim>\<open>panelScrollRefs.current\<close> beyond the panel array is null.
\<close>

definition refsMounted :: "app_state \<Rightarrow> bool" where
  "refsMounted st = list_all (\<lambda>r. r = None) (drop (length (panels st)) (panelScrollRefs st))"

text \<open>A release of the guard is scheduled whenever the guard is set.\<close>

definition releaseScheduled :: "app_state \<Rightarrow> bool" where
  "releaseScheduled st = (if isSyncingScroll st then pendingFrames st > 0 else True)"

section \<open>A small host for closed examples\<close>

text \<open>
  An engine to evaluate the model on concrete inputs. A pattern is one literal character
  other than an opening parenthesis and every other pattern fails to compile; on a single
  letter this is what JavaScript does. The flag \<open>i\<close> makes the match ignore the case of
  ASCII letters. A result has no captures and no named groups, \<^verbatim>\<open>replace\<close> is
  \<open>jsReplace\<close> on the results of the scan, and \<^verbatim>\<open>escapeRegExp\<close> leaves a letter as it is.
\<close>

definition asciiLower :: "char \<Rightarrow> char" where
  "asciiLower c =
     (if 65 \<le> (of_char c :: nat) \<and> (of_char c :: nat) \<le> 90 then char_of (of_char c + (32 :: nat))
      else c)"

definition exNewRegExp :: "string \<Rightarrow> string \<Rightarrow> js_error + (char \<times> bool)" where
  "exNewRegExp pattern flags =
     (case pattern of
        [c] \<Rightarrow> if c = CHR ''('' then Inl SyntaxError else Inr (c, CHR ''i'' \<in> set flags)
      | _ \<Rightarrow> Inl SyntaxError)"

fun exScan :: "nat \<Rightarrow> string \<Rightarrow> char \<times> bool \<Rightarrow> RegExpMatchArray list" where
  "exScan i [] r = []"
| "exScan i (x # xs) r =
     (if x = fst r \<or> (snd r \<and> asciiLower x = asciiLower (fst r)) then
        \<lparr>rm_index = Some i, rm_text = [x], rm_captures = [], rm_groups = None\<rparr> #
        exScan (Suc i) xs r
      else exScan (Suc i) xs r)"

definition exReplace :: "string \<Rightarrow> char \<times> bool \<Rightarrow> string \<Rightarrow> string" where
  "exReplace s r replaceValue = jsReplace s (exScan 0 s r) replaceValue"

definition exEnv :: "(char \<times> bool) js_env" where
  "exEnv = \<lparr>escapeRegExp = (\<lambda>s. s), newRegExp = exNewRegExp,
            str_matchAll = exScan 0, str_replace = exReplace\<rparr>"

text \<open>
  Example states: two panels \<open>a\<close> and \<open>b\<close> with the texts \<open>xay\<close> and \<open>zzz\<close>, the
  find widget open, and two mounted scroll elements.
\<close>

definition exState :: "string \<Rightarrow> bool \<Rightarrow> app_state" where
  "exState q re =
     \<lparr>heap = [\<lparr>p_id = ''a'', p_text = ''xay'', p_title = ''A''\<rparr>,
              \<lparr>p_id = ''b'', p_text = ''zzz'', p_title = ''B''\<rparr>],
      panels = [0, 1],
      isFindVisible = True,
      findQuery = q,
      replaceQuery = ''uu'',
      findOptions = \<lparr>caseSensitive = False, useRegex = re\<rparr>,
      matches = [],
      activeMatchIndex = Num (- 1),
      syncingPanelIds = [],
      panelScrollRefs = [Some \<lparr>scrollTop = 0, scrollLeft = 0\<rparr>, Some \<lparr>scrollTop = 0, scrollLeft = 0\<rparr>],
      isSyncingScroll = False,
      syncIndicatorTimer = None,
      pendingTimeouts = [],
      nextTimerId = 1,
      pendingFrames = 0\<rparr>"

text \<open>
  The example state with the query \<open>a\<close> after the Find Matches effect has run, and the
  state Replace All leaves from there: the first panel is a new object with the text
  \<open>xuuy\<close>, the second keeps its reference.
\<close>

definition exFound :: app_state where
  "exFound = findMatchesEffect exEnv (exState ''a'' False)"

definition exReplaced :: app_state where
  "exReplaced =
     exFound\<lparr>heap := heap exFound @ [\<lparr>p_id = ''a'', p_text = ''xuuy'', p_title = ''A''\<rparr>],
             panels := [2, 1]\<rparr>"

text \<open>The same state with the replacement \<^verbatim>\<open>$&$&\<close> in the replace field.\<close>

definition exDollar :: app_state where
  "exDollar = exFound\<lparr>replaceQuery := ''$&$&''\<rparr>"

section \<open>Properties of the diff engine\<close>

lemma backtrace_baseLines:
  "i \<le> length B \<Longrightarrow> baseLines (backtrace B V i j acc) = take i B @ baseLines acc"
  by (induction B V i j acc rule: backtrace.induct)
     (auto simp: baseLines_def take_Suc_conv_app_nth)

lemma backtrace_variantLines:
  "j \<le> length V \<Longrightarrow> variantLines (backtrace B V i j acc) = take j V @ variantLines acc"
  by (induction B V i j acc rule: backtrace.induct)
     (auto simp: variantLines_def take_Suc_conv_app_nth)

text \<open>
  Claim C1. For every pair of line sequences \<open>B\<close> and \<open>V\<close>, the lines of
  \<open>computeDiff B V\<close> whose kind is Removed or Unchanged carry, in emission order, exactly
  the texts of \<open>B\<close>, and the lines whose kind is Added or Unchanged exactly the texts of
  \<open>V\<close>.
\<close>

theorem computeDiff_reconstructs:
  "baseLines (computeDiff B V) = B \<and> variantLines (computeDiff B V) = V"
proof
  show "baseLines (computeDiff B V) = B"
    by (simp add: computeDiff_def backtrace_baseLines) (simp add: baseLines_def)
  show "variantLines (computeDiff B V) = V"
    by (simp add: computeDiff_def backtrace_variantLines) (simp add: variantLines_def)
qed

text \<open>
  The table grows by at most one from a cell to its right neighbour and never shrinks
  from a cell to the one below.
\<close>

lemma lcsTable_step:
  "lcsTable B V i (Suc j) \<le> Suc (lcsTable B V i j) \<and> lcsTable B V i j \<le> lcsTable B V (Suc i) j"
proof (induction i arbitrary: j)
  case 0
  then show ?case by simp
next
  case (Suc i)
  have step: "lcsTable B V (Suc i) (Suc j) \<le> Suc (lcsTable B V (Suc i) j)" for j
    using Suc.IH [of j] by (auto simp: max_def)
  have mono: "lcsTable B V (Suc i) j \<le> lcsTable B V (Suc (Suc i)) j"
  proof (cases j)
    case 0
    then show ?thesis by simp
  next
    case (Suc j')
    then show ?thesis using step [of j'] by (auto simp: max_def)
  qed
  from step mono show ?case by blast
qed

lemma lcsTable_mono_i: "lcsTable B V i j \<le> lcsTable B V (Suc i) j"
  using lcsTable_step by blast

lemma backtrace_noAddedThenRemoved:
  "noAddedThenRemoved acc \<Longrightarrow> removedGuard B V i j acc \<Longrightarrow>
   noAddedThenRemoved (backtrace B V i j acc)"
proof (induction B V i j acc rule: backtrace.induct)
  case (1 B V acc)
  then show ?case by simp
next
  case (2 B V i acc)
  then show ?case by (cases acc) (auto simp: removedGuard_def)
next
  case (3 B V j acc)
  then show ?case by (cases acc) (auto simp: removedGuard_def)
next
  case (4 B V i j acc)
  show ?case
  proof (cases "B ! i = V ! j")
    case True
    then show ?thesis using 4 by (cases acc) (auto simp: removedGuard_def)
  next
    case ne: False
    show ?thesis
    proof (cases "lcsTable B V (Suc i) j \<ge> lcsTable B V i (Suc j)")
      case True
      have "noAddedThenRemoved (\<lparr>d_type = Added, d_text = V ! j\<rparr> # acc)"
        using "4.prems" ne True by (cases acc) (auto simp: removedGuard_def max_def)
      moreover have "removedGuard B V (Suc i) j (\<lparr>d_type = Added, d_text = V ! j\<rparr> # acc)"
        by (simp add: removedGuard_def)
      ultimately show ?thesis using "4.IH"(2) ne True by simp
    next
      case False
      have "noAddedThenRemoved (\<lparr>d_type = Removed, d_text = B ! i\<rparr> # acc)"
        using "4.prems" by (cases acc) auto
      moreover have "removedGuard B V i (Suc j) (\<lparr>d_type = Removed, d_text = B ! i\<rparr> # acc)"
        using False lcsTable_mono_i [of B V i j] by (simp add: removedGuard_def)
      ultimately show ?thesis using "4.IH"(3) ne False by simp
    qed
  qed
qed

lemma changedBlocks_nonempty: "changedBlocks ds \<noteq> []"
  by (induction ds) (auto split: list.splits)

lemma removedThenAdded_Nil: "removedThenAdded []"
  by (simp add: removedThenAdded_def)

lemma removedThenAdded_single: "d_type d = Added \<Longrightarrow> removedThenAdded [d]"
  by (simp add: removedThenAdded_def)

lemma removedThenAdded_Cons_Removed:
  "d_type d = Removed \<Longrightarrow> removedThenAdded blk \<Longrightarrow> removedThenAdded (d # blk)"
  by (simp add: removedThenAdded_def)

lemma removedThenAdded_Cons_Added:
  assumes "d_type d = Added" "d_type e = Added" "removedThenAdded (e # blk)"
  shows "removedThenAdded (d # e # blk)"
proof (cases "filter (\<lambda>d. d_type d = Removed) blk")
  case Nil
  then show ?thesis using assms by (simp add: removedThenAdded_def)
next
  case (Cons r rs)
  then have "r \<in> set (filter (\<lambda>d. d_type d = Removed) blk)" by simp
  then have "d_type r = Removed" by simp
  moreover have "e = r" using assms(2,3) Cons by (simp add: removedThenAdded_def)
  ultimately show ?thesis using assms(2) by simp
qed

lemma noAddedThenRemoved_blocks:
  "noAddedThenRemoved ds \<Longrightarrow> list_all removedThenAdded (changedBlocks ds)"
proof (induction ds rule: noAddedThenRemoved.induct)
  case 1
  then show ?case by (simp add: removedThenAdded_def)
next
  case (2 d)
  then show ?case by (cases "d_type d") (auto simp add: removedThenAdded_def)
next
  case (3 d e ds)
  then have IH: "list_all removedThenAdded (changedBlocks (e # ds))" by simp
  obtain b bs where bs: "changedBlocks (e # ds) = b # bs"
    using changedBlocks_nonempty [of "e # ds"] by (cases "changedBlocks (e # ds)") auto
  from IH bs have b: "removedThenAdded b" and rest: "list_all removedThenAdded bs" by simp_all
  have cb: "changedBlocks (d # e # ds) =
              (if d_type d = Unchanged then [] # b # bs else (d # b) # bs)"
    using bs by (simp del: changedBlocks.simps add: changedBlocks.simps(2) [of d "e # ds"])
  show ?case
  proof (cases "d_type d")
    case Unchanged
    then show ?thesis using b rest unfolding cb by (simp add: removedThenAdded_Nil)
  next
    case Removed
    then show ?thesis using b rest unfolding cb by (simp add: removedThenAdded_Cons_Removed)
  next
    case Added
    with "3.prems" have ne: "d_type e \<noteq> Removed" by simp
    show ?thesis
    proof (cases "d_type e")
      case Unchanged
      then have "b = []" using bs by simp
      then show ?thesis using Added rest unfolding cb by (simp add: removedThenAdded_single)
    next
      case Removed
      with ne show ?thesis by simp
    next
      case eA: Added
      then obtain b' where b': "b = e # b'" using bs by (auto split: list.splits)
      have "removedThenAdded (d # e # b')"
        using removedThenAdded_Cons_Added [OF Added eA] b b' by simp
      then show ?thesis using Added b' rest unfolding cb by simp
    qed
  qed
qed

text \<open>
  Claim C2. For every pair of line sequences, every contiguous block of changed lines of
  \<open>computeDiff B V\<close> consists of its Removed lines followed by its Added lines; and the
  diff of the single line \<open>a\<close> against the single line \<open>b\<close> is Removed \<open>a\<close>, then
  Added \<open>b\<close>.
\<close>

theorem computeDiff_blocksOrdered:
  "blocksOrdered (computeDiff B V) \<and>
   computeDiff [''a''] [''b''] =
     [\<lparr>d_type = Removed, d_text = ''a''\<rparr>, \<lparr>d_type = Added, d_text = ''b''\<rparr>]"
proof
  have "noAddedThenRemoved (backtrace B V (length B) (length V) [])"
    by (rule backtrace_noAddedThenRemoved) (simp_all add: removedGuard_def)
  then show "blocksOrdered (computeDiff B V)"
    by (simp add: blocksOrdered_def computeDiff_def noAddedThenRemoved_blocks)
  show "computeDiff [''a''] [''b''] =
     [\<lparr>d_type = Removed, d_text = ''a''\<rparr>, \<lparr>d_type = Added, d_text = ''b''\<rparr>]"
    by (simp add: computeDiff_def)
qed

section \<open>Properties of the match index\<close>

lemma findMatchesTry_index_irrelevant:
  "findMatchesTry env (st\<lparr>activeMatchIndex := i\<rparr>) = findMatchesTry env st"
  by (simp add: findMatchesTry_def panelObjs_def split: sum.splits)

text \<open>
  Claim C10. Every run of the Find Matches effect sets the active match index to 0 when
  the match list it computed is non-empty and to -1 when it is empty, and its result
  does not depend on the index that was active before.
\<close>

theorem findMatchesEffect_resets_index:
  "activeMatchIndex (findMatchesEffect env st) =
     (if matches (findMatchesEffect env st) = [] then Num (- 1) else Num 0) \<and>
   findMatchesEffect env (st\<lparr>activeMatchIndex := i\<rparr>) = findMatchesEffect env st"
  by (simp add: findMatchesEffect_def findMatchesTry_index_irrelevant split: sum.splits)

text \<open>
  Claim C5. When \<open>useRegex\<close> is set and the query does not compile, the effect ends with
  the empty match list and the index -1: the exception does not leave the effect, and the
  match list and the index are those of any search that compiles and finds nothing.
\<close>

theorem invalid_regex_gives_empty_matches:
  assumes "useRegex (findOptions st)"
    and "newRegExp env (findQuery st) (if caseSensitive (findOptions st) then ''g'' else ''gi'') = Inl e"
    and "findQuery st' \<noteq> []" and "isFindVisible st'" and "findMatchesTry env' st' = Inr []"
  shows "findMatchesEffect env st = st\<lparr>matches := [], activeMatchIndex := Num (- 1)\<rparr> \<and>
         matches (findMatchesEffect env st) = matches (findMatchesEffect env' st') \<and>
         activeMatchIndex (findMatchesEffect env st) = activeMatchIndex (findMatchesEffect env' st')"
  using assms by (simp add: findMatchesEffect_def findMatchesTry_def)

theorem invalid_regex_gives_empty_matches_witness:
  "findMatchesEffect exEnv (exState ''('' True) =
     (exState ''('' True)\<lparr>matches := [], activeMatchIndex := Num (- 1)\<rparr> \<and>
   matches (findMatchesEffect exEnv (exState ''('' True)) =
     matches (findMatchesEffect exEnv (exState ''q'' False)) \<and>
   activeMatchIndex (findMatchesEffect exEnv (exState ''('' True)) =
     activeMatchIndex (findMatchesEffect exEnv (exState ''q'' False))"
proof -
  have 1: "useRegex (findOptions (exState ''('' True))"
    by (simp add: exState_def)
  have 2: "newRegExp exEnv (findQuery (exState ''('' True))
             (if caseSensitive (findOptions (exState ''('' True)) then ''g'' else ''gi'') = Inl SyntaxError"
    by (simp add: exState_def exEnv_def exNewRegExp_def)
  have 3: "findQuery (exState ''q'' False) \<noteq> []" and 4: "isFindVisible (exState ''q'' False)"
    by (simp_all add: exState_def)
  have 5: "findMatchesTry exEnv (exState ''q'' False) = Inr []"
    by (simp add: findMatchesTry_def exState_def exEnv_def exNewRegExp_def asciiLower_def
        panelObjs_def)
  show ?thesis
    by (rule invalid_regex_gives_empty_matches [OF 1 2 3 4 5])
qed

section \<open>Navigation\<close>

text \<open>On a non-empty match list, next and prev step through the indices cyclically.\<close>

lemma smod_nonneg: "0 \<le> k \<Longrightarrow> 0 < n \<Longrightarrow> k smod n = k mod (n::int)"
proof (cases "k = 0")
  case True
  then show ?thesis by (simp add: signed_modulo_int_def)
next
  case False
  assume "0 \<le> k" "0 < n"
  with False have "sgn k = 1" "\<bar>k\<bar> = k" "\<bar>n\<bar> = n" by simp_all
  then show ?thesis by (simp add: signed_modulo_int_def)
qed

lemma handleFindNext_nonempty:
  assumes "matches st \<noteq> []" and "activeMatchIndex st = Num i" and "- 1 \<le> i"
  shows "activeMatchIndex (handleFindNext st) = Num ((i + 1) mod int (length (matches st)))"
proof -
  have "0 < int (length (matches st))" using assms(1) by simp
  moreover have "0 \<le> i + 1" using assms(3) by simp
  ultimately have "(i + 1) smod int (length (matches st)) = (i + 1) mod int (length (matches st))"
    by (rule smod_nonneg [rotated])
  then show ?thesis using assms(1,2) by (simp add: handleFindNext_def)
qed

lemma handleFindPrev_nonempty:
  assumes "matches st \<noteq> []" and "activeMatchIndex st = Num i" and "- 1 \<le> i"
  shows "activeMatchIndex (handleFindPrev st) =
           Num ((i - 1 + int (length (matches st))) mod int (length (matches st)))"
proof -
  let ?n = "int (length (matches st))"
  have n: "0 < ?n" using assms(1) by simp
  have "(i - 1 + ?n) smod ?n = (i - 1 + ?n) mod ?n"
  proof (cases "0 \<le> i - 1 + ?n")
    case True
    then show ?thesis using n by (rule smod_nonneg)
  next
    case False
    then have "?n = 1" and "i = - 1" using n assms(3) by linarith+
    then show ?thesis by (simp add: signed_modulo_int_def)
  qed
  then show ?thesis using assms(1,2) by (simp add: handleFindPrev_def)
qed

text \<open>
  Claim C3, at the empty match list. The claim asks next and prev to return the sentinel
  -1 there. The handlers compute a remainder by \<^verbatim>\<open>matches.length\<close>, which is zero: in
  the state the component starts in (no matches, index -1) both set the index to NaN.
\<close>

theorem handleFind_empty_gives_NaN:
  "matches (initialState id0 id1) = [] \<and>
   activeMatchIndex (initialState id0 id1) = Num (- 1) \<and>
   activeMatchIndex (handleFindNext (initialState id0 id1)) = NaN \<and>
   activeMatchIndex (handleFindPrev (initialState id0 id1)) = NaN"
  by (simp add: initialState_def handleFindNext_def handleFindPrev_def)

text \<open>
  Claim C4, after next on an empty match list. The claim asks for the index -1 whenever
  the match list is empty. After the Find Matches effect has run on the initial state
  the list is empty and the index is -1; next keeps the list empty and leaves an index
  that is neither -1 nor an index into the list.
\<close>

theorem index_invariant_broken_by_next:
  "matches (handleFindNext (findMatchesEffect env (initialState id0 id1))) = [] \<and>
   activeMatchIndex (findMatchesEffect env (initialState id0 id1)) = Num (- 1) \<and>
   activeMatchIndex (handleFindNext (findMatchesEffect env (initialState id0 id1))) \<noteq> Num (- 1) \<and>
   js_index (matches (handleFindNext (findMatchesEffect env (initialState id0 id1))))
     (activeMatchIndex (handleFindNext (findMatchesEffect env (initialState id0 id1)))) = None"
  by (simp add: initialState_def handleFindNext_def findMatchesEffect_def)

section \<open>The panel store\<close>

text \<open>
  \<open>mapPanels\<close> keeps the length of the array, only ever extends the store, keeps the
  reference of an entry the callback returns as it is, and gives an entry the callback
  replaces a reference that was not allocated before.
\<close>

lemma mapPanels_length: "length (fst (mapPanels f as h)) = length as"
  by (induction as arbitrary: h) (auto split: option.splits simp: split_beta)

lemma mapPanels_heap: "\<exists>ext. snd (mapPanels f as h) = h @ ext"
proof (induction as arbitrary: h)
  case Nil
  then show ?case by simp
next
  case (Cons a as)
  show ?case
  proof (cases "f (h ! a)")
    case None
    then show ?thesis using Cons [of h] by (auto simp: split_beta)
  next
    case (Some p')
    from Cons [of "h @ [p']"] obtain ext where "snd (mapPanels f as (h @ [p'])) = (h @ [p']) @ ext"
      by blast
    then show ?thesis using Some by (auto simp: split_beta)
  qed
qed

lemma mapPanels_heap_nth: "a < length h \<Longrightarrow> snd (mapPanels f as h) ! a = h ! a"
  using mapPanels_heap [of f as h] by (auto simp: nth_append)

lemma mapPanels_heap_length: "length h \<le> length (snd (mapPanels f as h))"
  using mapPanels_heap [of f as h] by auto

lemma mapPanels_nth:
  assumes "list_all (\<lambda>a. a < length h) as" and "i < length as"
  shows "case f (h ! (as ! i)) of
           None \<Rightarrow> fst (mapPanels f as h) ! i = as ! i
         | Some p' \<Rightarrow> length h \<le> fst (mapPanels f as h) ! i \<and>
                      fst (mapPanels f as h) ! i < length (snd (mapPanels f as h)) \<and>
                      snd (mapPanels f as h) ! (fst (mapPanels f as h) ! i) = p'"
  using assms
proof (induction as arbitrary: h i)
  case Nil
  then show ?case by simp
next
  case (Cons a as)
  show ?case
  proof (cases "f (h ! a)")
    case None
    show ?thesis
    proof (cases i)
      case 0
      then show ?thesis using None by (auto simp: split_beta)
    next
      case (Suc k)
      then show ?thesis using None Cons.IH [of h k] Cons.prems
        by (auto split: option.splits simp: split_beta)
    qed
  next
    case (Some p')
    let ?h = "h @ [p']"
    show ?thesis
    proof (cases i)
      case 0
      have "length h < length (snd (mapPanels f as ?h))"
        using mapPanels_heap_length [of ?h f as] by simp
      moreover have "snd (mapPanels f as ?h) ! length h = p'"
        using mapPanels_heap_nth [of "length h" ?h f as] by simp
      ultimately show ?thesis using 0 Some by (auto simp: split_beta)
    next
      case (Suc k)
      have v: "list_all (\<lambda>a. a < length ?h) as"
        using Cons.prems(1) by (auto simp: list_all_iff)
      have k: "k < length as" using Cons.prems(2) Suc by simp
      have "as ! k < length h" using Cons.prems(1) k by (auto simp: list_all_iff)
      then have eq: "?h ! (as ! k) = h ! (as ! k)" by (simp add: nth_append)
      show ?thesis using Suc Some Cons.IH [OF v k] eq
        by (auto split: option.splits simp: split_beta)
    qed
  qed
qed

lemma mapPanels_valid:
  assumes "list_all (\<lambda>a. a < length h) as"
  shows "list_all (\<lambda>a. a < length (snd (mapPanels f as h))) (fst (mapPanels f as h))"
proof -
  have "fst (mapPanels f as h) ! i < length (snd (mapPanels f as h))"
    if i: "i < length as" for i
  proof (cases "f (h ! (as ! i))")
    case None
    then have "fst (mapPanels f as h) ! i = as ! i"
      using mapPanels_nth [OF assms i, of f] by simp
    moreover have "as ! i < length h" using assms i by (auto simp: list_all_iff)
    ultimately show ?thesis using mapPanels_heap_length [of h f as] by simp
  next
    case (Some p')
    then show ?thesis using mapPanels_nth [OF assms i, of f] by simp
  qed
  then show ?thesis
    by (auto simp: list_all_iff in_set_conv_nth mapPanels_length)
qed

lemma mapPanels_objs:
  assumes "list_all (\<lambda>a. a < length h) as"
  shows "map (\<lambda>a. snd (mapPanels f as h) ! a) (fst (mapPanels f as h)) =
         map (\<lambda>p. case f p of None \<Rightarrow> p | Some p' \<Rightarrow> p') (map (\<lambda>a. h ! a) as)"
proof (rule nth_equalityI)
  show "length (map (\<lambda>a. snd (mapPanels f as h) ! a) (fst (mapPanels f as h))) =
        length (map (\<lambda>p. case f p of None \<Rightarrow> p | Some p' \<Rightarrow> p') (map (\<lambda>a. h ! a) as))"
    by (simp add: mapPanels_length)
next
  fix i
  assume "i < length (map (\<lambda>a. snd (mapPanels f as h) ! a) (fst (mapPanels f as h)))"
  then have i: "i < length as" by (simp add: mapPanels_length)
  have v: "as ! i < length h" using assms i by (auto simp: list_all_iff)
  show "map (\<lambda>a. snd (mapPanels f as h) ! a) (fst (mapPanels f as h)) ! i =
        map (\<lambda>p. case f p of None \<Rightarrow> p | Some p' \<Rightarrow> p') (map (\<lambda>a. h ! a) as) ! i"
  proof (cases "f (h ! (as ! i))")
    case None
    then have "fst (mapPanels f as h) ! i = as ! i"
      using mapPanels_nth [OF assms i, of f] by simp
    then show ?thesis using None i v by (simp add: mapPanels_length mapPanels_heap_nth)
  next
    case (Some p')
    then have "snd (mapPanels f as h) ! (fst (mapPanels f as h) ! i) = p'"
      using mapPanels_nth [OF assms i, of f] by simp
    then show ?thesis using Some i by (simp add: mapPanels_length)
  qed
qed

section \<open>The bounds of the panel collection\<close>

text \<open>
  A call of \<^verbatim>\<open>addPanel\<close> or \<^verbatim>\<open>removePanel\<close> whose closure holds the array the updater
  is applied to (one call per render) keeps the collection between two and four panels.
\<close>

lemma addPanel_rendered:
  "panelCountOk st \<Longrightarrow> panelCountOk (addPanel newId (panels st) st)"
  by (simp add: panelCountOk_def addPanel_def Let_def)

lemma removePanel_rendered:
  "panelCountOk st \<Longrightarrow> panelCountOk (removePanel (panels st) st)"
  by (auto simp: panelCountOk_def removePanel_def)


section \<open>The cases of Replace All\<close>

lemma handleReplaceAll_cases:
  assumes "handleReplaceAll env st = Inr st'"
  shows "st' = st \<or>
         (\<exists>u. collectUpdates env st (panelObjs st) Map.empty = Inr u \<and>
              findQuery st \<noteq> [] \<and> matches st \<noteq> [] \<and>
              st' = st\<lparr>heap := snd (mapPanels (\<lambda>p. case u (p_id p) of
                                                      Some t \<Rightarrow> Some (p\<lparr>p_text := t\<rparr>)
                                                    | None \<Rightarrow> None) (panels st) (heap st)),
                       panels := fst (mapPanels (\<lambda>p. case u (p_id p) of
                                                        Some t \<Rightarrow> Some (p\<lparr>p_text := t\<rparr>)
                                                      | None \<Rightarrow> None) (panels st) (heap st))\<rparr>)"
proof (cases "findQuery st = [] \<or> length (matches st) = 0")
  case True
  then show ?thesis using assms by (simp add: handleReplaceAll_def)
next
  case False
  show ?thesis
  proof (cases "collectUpdates env st (panelObjs st) Map.empty")
    case (Inl e)
    then show ?thesis using assms False by (simp add: handleReplaceAll_def)
  next
    case (Inr u)
    then show ?thesis using assms False
      by (simp add: handleReplaceAll_def Let_def split_beta)
  qed
qed

section \<open>The scroll guard\<close>

text \<open>
  With every element beyond the panel array null, the fan-out reads no missing panel and
  raises nothing; it never turns a null entry into an element or an element into null.
\<close>

lemma fanOut_no_error:
  "list_all (\<lambda>r. r = None) (drop (length ps - i) rs) \<Longrightarrow>
   snd (snd (fanOut ps k sTop sLeft i rs)) = None"
proof (induction rs arbitrary: i)
  case Nil
  then show ?case by simp
next
  case (Cons r rs)
  have tail: "list_all (\<lambda>r. r = None) (drop (length ps - Suc i) rs)"
  proof (cases "length ps - i")
    case 0
    then show ?thesis using Cons.prems by simp
  next
    case (Suc n)
    then have "length ps - Suc i = n" by simp
    then show ?thesis using Cons.prems Suc by simp
  qed
  have inside: "i < length ps" if "r \<noteq> None"
  proof (rule ccontr)
    assume "\<not> i < length ps"
    then have "length ps - i = 0" by simp
    then show False using Cons.prems that by simp
  qed
  show ?case using Cons.IH [OF tail] inside
    by (auto simp: split_beta Let_def split: option.splits)
qed

lemma fanOut_keeps_nulls:
  "list_all (\<lambda>r. r = None) (drop n (fst (fanOut ps k sTop sLeft i rs))) =
   list_all (\<lambda>r. r = None) (drop n rs)"
proof (induction rs arbitrary: i n)
  case Nil
  then show ?case by simp
next
  case (Cons r rs)
  show ?case
  proof (cases n)
    case 0
    then show ?thesis using Cons [of 0 "Suc i"]
      by (auto simp: split_beta Let_def split: option.splits)
  next
    case (Suc m)
    then show ?thesis using Cons [of m "Suc i"]
      by (auto simp: split_beta Let_def split: option.splits)
  qed
qed

lemma handleScroll_guard_set:
  "isSyncingScroll st \<Longrightarrow> handleScroll pid sTop sLeft st = (None, st)"
  by (simp add: handleScroll_def)

lemma handleScroll_guard_clear:
  assumes "refsMounted st" and "\<not> isSyncingScroll st"
  shows "fst (handleScroll pid sTop sLeft st) = None \<and>
         isSyncingScroll (snd (handleScroll pid sTop sLeft st)) \<and>
         pendingFrames (snd (handleScroll pid sTop sLeft st)) = Suc (pendingFrames st) \<and>
         refsMounted (snd (handleScroll pid sTop sLeft st))"
proof (cases "findIndex (\<lambda>p. p_id p = pid) (panelObjs st)")
  case None
  then show ?thesis using assms
    by (simp add: handleScroll_def panelObjs_def requestAnimationFrame_def refsMounted_def)
next
  case (Some k)
  obtain refs ids err where f: "fanOut (panelObjs st) k sTop sLeft 0 (panelScrollRefs st) = (refs, ids, err)"
    by (cases "fanOut (panelObjs st) k sTop sLeft 0 (panelScrollRefs st)") auto
  have "snd (snd (fanOut (panelObjs st) k sTop sLeft 0 (panelScrollRefs st))) = None"
    using assms(1) by (intro fanOut_no_error) (simp add: refsMounted_def panelObjs_def)
  then have err: "err = None" using f by simp
  have "list_all (\<lambda>r. r = None) (drop (length (panels st)) refs)"
    using fanOut_keeps_nulls [of "length (panels st)" "panelObjs st" k sTop sLeft 0 "panelScrollRefs st"]
      f assms(1) by (simp add: refsMounted_def)
  then show ?thesis using assms Some f err
    by (simp add: handleScroll_def panelObjs_def requestAnimationFrame_def refsMounted_def
        setTimeout_def clearTimeout_def Let_def split: option.splits)
qed

lemma hostStep_inv:
  assumes "refsMounted st" and "releaseScheduled st"
  shows "refsMounted (hostStep ev st) \<and> releaseScheduled (hostStep ev st)"
proof (cases ev)
  case (Scroll pid sTop sLeft)
  show ?thesis
  proof (cases "isSyncingScroll st")
    case True
    then show ?thesis using assms Scroll by (simp add: handleScroll_guard_set)
  next
    case False
    then show ?thesis using handleScroll_guard_clear [OF assms(1) False, of pid sTop sLeft] Scroll
      by (simp add: releaseScheduled_def)
  qed
next
  case AnimationFrame
  then show ?thesis using assms
    by (auto simp: runAnimationFrame_def refsMounted_def releaseScheduled_def split: if_splits)
next
  case (Timeout t)
  then show ?thesis using assms
    by (simp add: fireTimeout_def refsMounted_def releaseScheduled_def)
qed

lemma hostRun_inv:
  "refsMounted st \<Longrightarrow> releaseScheduled st \<Longrightarrow>
   refsMounted (hostRun evs st) \<and> releaseScheduled (hostRun evs st)"
  by (induction evs arbitrary: st) (simp_all add: hostStep_inv)

lemma frame_releases:
  "releaseScheduled st \<Longrightarrow> \<not> isSyncingScroll (runAnimationFrame st)"
  by (auto simp: releaseScheduled_def runAnimationFrame_def split: if_splits)

text \<open>
  Claim C8. A scroll event that arrives while the guard is set leaves the whole state as
  it is. With the guard clear, the handler completes without an exception, leaves the
  guard set with one more animation-frame callback queued, and any scroll event that
  arrives in that state is ignored. Whatever events the host delivers, the guard is
  clear after the next animation frame.
\<close>

theorem scroll_guard:
  assumes "refsMounted st" and "releaseScheduled st"
  shows "(if isSyncingScroll st then handleScroll pid sTop sLeft st = (None, st)
          else fst (handleScroll pid sTop sLeft st) = None \<and>
               isSyncingScroll (snd (handleScroll pid sTop sLeft st)) \<and>
               pendingFrames (snd (handleScroll pid sTop sLeft st)) = Suc (pendingFrames st) \<and>
               handleScroll pid' sTop' sLeft' (snd (handleScroll pid sTop sLeft st)) =
                 (None, snd (handleScroll pid sTop sLeft st))) \<and>
         \<not> isSyncingScroll (runAnimationFrame (hostRun evs st))"
proof -
  have "\<not> isSyncingScroll (runAnimationFrame (hostRun evs st))"
    using hostRun_inv [OF assms] by (simp add: frame_releases)
  moreover have "handleScroll pid sTop sLeft st = (None, st)" if "isSyncingScroll st"
    using that by (rule handleScroll_guard_set)
  moreover have "fst (handleScroll pid sTop sLeft st) = None \<and>
               isSyncingScroll (snd (handleScroll pid sTop sLeft st)) \<and>
               pendingFrames (snd (handleScroll pid sTop sLeft st)) = Suc (pendingFrames st) \<and>
               handleScroll pid' sTop' sLeft' (snd (handleScroll pid sTop sLeft st)) =
                 (None, snd (handleScroll pid sTop sLeft st))" if "\<not> isSyncingScroll st"
    using handleScroll_guard_clear [OF assms(1) that, of pid sTop sLeft]
    by (simp add: handleScroll_guard_set)
  ultimately show ?thesis by simp
qed


theorem scroll_guard_witness:
  "refsMounted (exState ''a'' False) \<and> releaseScheduled (exState ''a'' False) \<and>
   fst (handleScroll ''a'' 5 7 (exState ''a'' False)) = None \<and>
   isSyncingScroll (snd (handleScroll ''a'' 5 7 (exState ''a'' False))) \<and>
   pendingFrames (snd (handleScroll ''a'' 5 7 (exState ''a'' False))) = 1 \<and>
   handleScroll ''b'' 1 1 (snd (handleScroll ''a'' 5 7 (exState ''a'' False))) =
     (None, snd (handleScroll ''a'' 5 7 (exState ''a'' False))) \<and>
   \<not> isSyncingScroll
       (runAnimationFrame (hostRun [Scroll ''a'' 5 7, Scroll ''b'' 1 1] (exState ''a'' False)))"
proof -
  have h1: "refsMounted (exState ''a'' False)"
    by (simp add: refsMounted_def exState_def)
  have h2: "releaseScheduled (exState ''a'' False)"
    by (simp add: releaseScheduled_def exState_def)
  have g: "isSyncingScroll (exState ''a'' False) = False"
    and f: "pendingFrames (exState ''a'' False) = 0"
    by (simp_all add: exState_def)
  note T = scroll_guard [where st = "exState ''a'' False" and pid = "''a''" and sTop = 5
      and sLeft = 7 and pid' = "''b''" and sTop' = 1 and sLeft' = 1
      and evs = "[Scroll ''a'' 5 7, Scroll ''b'' 1 1]", OF h1 h2]
  from T g have A: "fst (handleScroll ''a'' 5 7 (exState ''a'' False)) = None"
    and B: "isSyncingScroll (snd (handleScroll ''a'' 5 7 (exState ''a'' False)))"
    and C: "pendingFrames (snd (handleScroll ''a'' 5 7 (exState ''a'' False))) =
              Suc (pendingFrames (exState ''a'' False))"
    and D: "handleScroll ''b'' 1 1 (snd (handleScroll ''a'' 5 7 (exState ''a'' False))) =
              (None, snd (handleScroll ''a'' 5 7 (exState ''a'' False)))"
    by simp_all
  from C f have C': "pendingFrames (snd (handleScroll ''a'' 5 7 (exState ''a'' False))) = 1"
    by simp
  from T have E: "\<not> isSyncingScroll
       (runAnimationFrame (hostRun [Scroll ''a'' 5 7, Scroll ''b'' 1 1] (exState ''a'' False)))"
    by (rule conjunct2)
  show ?thesis
    by (intro conjI h1 h2 A B C' D E)
qed

section \<open>Replace All\<close>

lemma collectUpdates_compiles:
  "collectUpdates env st ps u = Inr u' \<Longrightarrow> ps \<noteq> [] \<Longrightarrow>
   \<exists>r. newRegExp env (if useRegex (findOptions st) then findQuery st
                        else escapeRegExp env (findQuery st))
          (if caseSensitive (findOptions st) then ''g'' else ''gi'') = Inr r"
  by (cases ps) (auto simp: Let_def split: sum.splits)

lemma collectUpdates_Inr:
  assumes "newRegExp env (if useRegex (findOptions st) then findQuery st
                          else escapeRegExp env (findQuery st))
             (if caseSensitive (findOptions st) then ''g'' else ''gi'') = Inr r"
    and "distinct (map p_id ps)"
  shows "\<exists>u'. collectUpdates env st ps u = Inr u' \<and>
           (\<forall>p\<in>set ps. u' (p_id p) =
              (if str_replace env (p_text p) r (replaceQuery st) \<noteq> p_text p
               then Some (str_replace env (p_text p) r (replaceQuery st)) else u (p_id p))) \<and>
           (\<forall>k. k \<notin> p_id ` set ps \<longrightarrow> u' k = u k)"
  using assms(2)
proof (induction ps arbitrary: u)
  case Nil
  then show ?case by simp
next
  case (Cons p ps)
  let ?nt = "str_replace env (p_text p) r (replaceQuery st)"
  let ?u1 = "if ?nt \<noteq> p_text p then u(p_id p \<mapsto> ?nt) else u"
  from Cons.prems have d: "distinct (map p_id ps)" and notin: "p_id p \<notin> p_id ` set ps" by auto
  from Cons.IH [OF d, of ?u1] obtain u' where
    u': "collectUpdates env st ps ?u1 = Inr u'"
    and inside: "\<forall>q\<in>set ps. u' (p_id q) =
              (if str_replace env (p_text q) r (replaceQuery st) \<noteq> p_text q
               then Some (str_replace env (p_text q) r (replaceQuery st)) else ?u1 (p_id q))"
    and outside: "\<forall>k. k \<notin> p_id ` set ps \<longrightarrow> u' k = ?u1 k"
    by blast
  have res: "collectUpdates env st (p # ps) u = Inr u'"
    using assms(1) u' by (simp add: Let_def)
  have "u' (p_id p) = (if ?nt \<noteq> p_text p then Some ?nt else u (p_id p))"
    using outside notin by simp
  moreover have "u' (p_id q) =
              (if str_replace env (p_text q) r (replaceQuery st) \<noteq> p_text q
               then Some (str_replace env (p_text q) r (replaceQuery st)) else u (p_id q))"
    if "q \<in> set ps" for q
  proof -
    have "p_id q \<in> p_id ` set ps" using that by (rule imageI)
    then have "p_id q \<noteq> p_id p" using notin by auto
    then show ?thesis using inside that by simp
  qed
  moreover have "u' k = u k" if "k \<notin> p_id ` set (p # ps)" for k
    using outside that by simp
  ultimately show ?case using res by auto
qed

lemma handleReplaceAll_passed:
  assumes valid: "refsValid st"
    and ids: "distinct (map p_id (panelObjs st))"
    and guard: "findQuery st \<noteq> []" "matches st \<noteq> []"
    and re: "newRegExp env (if useRegex (findOptions st) then findQuery st
                          else escapeRegExp env (findQuery st))
             (if caseSensitive (findOptions st) then ''g'' else ''gi'') = Inr r"
  shows "\<exists>f. handleReplaceAll env st =
               Inr (st\<lparr>heap := snd (mapPanels f (panels st) (heap st)),
                       panels := fst (mapPanels f (panels st) (heap st))\<rparr>) \<and>
             (\<forall>p\<in>set (panelObjs st). f p =
                (if str_replace env (p_text p) r (replaceQuery st) \<noteq> p_text p
                 then Some (p\<lparr>p_text := str_replace env (p_text p) r (replaceQuery st)\<rparr>)
                 else None))"
proof -
  from collectUpdates_Inr [OF re ids, of Map.empty] obtain u where
    u: "collectUpdates env st (panelObjs st) Map.empty = Inr u"
    and inside: "\<forall>p\<in>set (panelObjs st). u (p_id p) =
              (if str_replace env (p_text p) r (replaceQuery st) \<noteq> p_text p
               then Some (str_replace env (p_text p) r (replaceQuery st)) else None)"
    by auto
  let ?f = "\<lambda>p. case u (p_id p) of Some t \<Rightarrow> Some (p\<lparr>p_text := t\<rparr>) | None \<Rightarrow> None"
  have "handleReplaceAll env st =
               Inr (st\<lparr>heap := snd (mapPanels ?f (panels st) (heap st)),
                       panels := fst (mapPanels ?f (panels st) (heap st))\<rparr>)"
    using guard u by (simp add: handleReplaceAll_def Let_def split_beta)
  moreover have "\<forall>p\<in>set (panelObjs st). ?f p =
                (if str_replace env (p_text p) r (replaceQuery st) \<noteq> p_text p
                 then Some (p\<lparr>p_text := str_replace env (p_text p) r (replaceQuery st)\<rparr>)
                 else None)"
    using inside by simp
  ultimately show ?thesis by blast
qed

text \<open>
  Claim C6. When Replace All completes, no panel object has been changed in the store (in
  particular not the one an entry referred to) and the array has its length. An entry either holds the same reference as before, or a
  reference that was not allocated before, and then the text of its panel differs from
  the result of the substitution and the new object is the old one with that result as
  its text. An entry whose text the substitution leaves as it is holds the same
  reference as before.
\<close>

theorem replaceAll_preserves_identity:
  assumes valid: "refsValid st"
    and ids: "distinct (map p_id (panelObjs st))"
    and res: "handleReplaceAll env st = Inr st'"
    and i: "i < length (panels st)"
  shows "(\<exists>ext. heap st' = heap st @ ext) \<and>
         heap st' ! (panels st ! i) = heap st ! (panels st ! i) \<and>
         length (panels st') = length (panels st) \<and>
         (panels st' ! i = panels st ! i \<or>
          length (heap st) \<le> panels st' ! i \<and>
          (\<exists>r. newRegExp env (if useRegex (findOptions st) then findQuery st
                               else escapeRegExp env (findQuery st))
                  (if caseSensitive (findOptions st) then ''g'' else ''gi'') = Inr r \<and>
               str_replace env (p_text (heap st ! (panels st ! i))) r (replaceQuery st) \<noteq>
                 p_text (heap st ! (panels st ! i)) \<and>
               heap st' ! (panels st' ! i) =
                 (heap st ! (panels st ! i))
                   \<lparr>p_text := str_replace env (p_text (heap st ! (panels st ! i))) r (replaceQuery st)\<rparr>)) \<and>
         (\<forall>r. newRegExp env (if useRegex (findOptions st) then findQuery st
                               else escapeRegExp env (findQuery st))
                  (if caseSensitive (findOptions st) then ''g'' else ''gi'') = Inr r \<and>
               str_replace env (p_text (heap st ! (panels st ! i))) r (replaceQuery st) =
                 p_text (heap st ! (panels st ! i)) \<longrightarrow>
               panels st' ! i = panels st ! i)"
proof (cases "findQuery st = [] \<or> matches st = []")
  case True
  then have "st' = st" using res by (auto simp: handleReplaceAll_def)
  then show ?thesis by simp
next
  case False
  then have guard: "findQuery st \<noteq> []" "matches st \<noteq> []" by simp_all
  let ?p = "heap st ! (panels st ! i)"
  have pin: "?p \<in> set (panelObjs st)" using i by (auto simp: panelObjs_def)
  have ne: "panelObjs st \<noteq> []" using i by (auto simp: panelObjs_def)
  have "\<exists>u. collectUpdates env st (panelObjs st) Map.empty = Inr u"
    using handleReplaceAll_cases [OF res] guard res
    by (cases "collectUpdates env st (panelObjs st) Map.empty") (auto simp: handleReplaceAll_def)
  then obtain r where re: "newRegExp env (if useRegex (findOptions st) then findQuery st
                               else escapeRegExp env (findQuery st))
                  (if caseSensitive (findOptions st) then ''g'' else ''gi'') = Inr r"
    using collectUpdates_compiles [OF _ ne] by blast
  let ?nt = "str_replace env (p_text ?p) r (replaceQuery st)"
  from handleReplaceAll_passed [OF valid ids guard re] obtain f where
    st': "st' = st\<lparr>heap := snd (mapPanels f (panels st) (heap st)),
                   panels := fst (mapPanels f (panels st) (heap st))\<rparr>"
    and f: "\<forall>p\<in>set (panelObjs st). f p =
                (if str_replace env (p_text p) r (replaceQuery st) \<noteq> p_text p
                 then Some (p\<lparr>p_text := str_replace env (p_text p) r (replaceQuery st)\<rparr>)
                 else None)"
    using res by auto
  have fp: "f ?p = (if ?nt \<noteq> p_text ?p then Some (?p\<lparr>p_text := ?nt\<rparr>) else None)"
    using f pin by blast
  have v: "list_all (\<lambda>a. a < length (heap st)) (panels st)"
    using valid by (simp add: refsValid_def)
  note nth = mapPanels_nth [OF v i, of f]
  have ext: "\<exists>ext. heap st' = heap st @ ext"
    using mapPanels_heap [of f "panels st" "heap st"] st' by simp
  have len: "length (panels st') = length (panels st)"
    using st' by (simp add: mapPanels_length)
  have "panels st ! i < length (heap st)"
    using v i by (auto simp: list_all_iff)
  then have old: "heap st' ! (panels st ! i) = ?p"
    using st' by (simp add: mapPanels_heap_nth)
  show ?thesis
  proof (cases "?nt = p_text ?p")
    case True
    then have "panels st' ! i = panels st ! i" using nth fp st' by simp
    then show ?thesis using ext old len by simp
  next
    case changed: False
    then have "length (heap st) \<le> panels st' ! i"
      and "heap st' ! (panels st' ! i) = ?p\<lparr>p_text := ?nt\<rparr>"
      using nth fp st' by simp_all
    then show ?thesis using ext old len re changed by auto
  qed
qed

lemma exFound_eq:
  "exFound = (exState ''a'' False)\<lparr>matches := [\<lparr>m_panelId = ''a'', m_start = 1, m_end = 2\<rparr>],
                                  activeMatchIndex := Num 0\<rparr>"
  by (simp add: exFound_def findMatchesEffect_def findMatchesTry_def exState_def exEnv_def
      exNewRegExp_def asciiLower_def panelObjs_def)

lemma exReplaceAll_eq: "handleReplaceAll exEnv exFound = Inr exReplaced"
  by (simp add: exReplaced_def exFound_eq handleReplaceAll_def exState_def exEnv_def
      exNewRegExp_def exReplace_def jsReplace_def asciiLower_def panelObjs_def)

lemma exFound_valid: "refsValid exFound"
  by (simp add: exFound_eq refsValid_def exState_def)

lemma exFound_ids: "distinct (map p_id (panelObjs exFound))"
  by (simp add: exFound_eq panelObjs_def exState_def)

lemma exFound_regex:
  "newRegExp exEnv (if useRegex (findOptions exFound) then findQuery exFound
                    else escapeRegExp exEnv (findQuery exFound))
     (if caseSensitive (findOptions exFound) then ''g'' else ''gi'') = Inr (CHR ''a'', True)"
  by (simp add: exFound_eq exState_def exEnv_def exNewRegExp_def)

theorem replaceAll_preserves_identity_witness:
  "refsValid exFound \<and> distinct (map p_id (panelObjs exFound)) \<and>
   handleReplaceAll exEnv exFound = Inr exReplaced \<and>
   (\<exists>ext. heap exReplaced = heap exFound @ ext) \<and>
   heap exReplaced ! (panels exFound ! 1) = heap exFound ! (panels exFound ! 1) \<and>
   length (panels exReplaced) = length (panels exFound) \<and>
   panels exReplaced ! 1 = panels exFound ! 1"
proof -
  have i: "1 < length (panels exFound)"
    by (simp add: exFound_eq exState_def)
  note T = replaceAll_preserves_identity [OF exFound_valid exFound_ids exReplaceAll_eq i]
  have unchanged: "str_replace exEnv (p_text (heap exFound ! (panels exFound ! 1))) (CHR ''a'', True)
                     (replaceQuery exFound) = p_text (heap exFound ! (panels exFound ! 1))"
    by (simp add: exFound_eq exState_def exEnv_def exReplace_def jsReplace_def asciiLower_def)
  from T have "\<forall>r. newRegExp exEnv (if useRegex (findOptions exFound) then findQuery exFound
                                      else escapeRegExp exEnv (findQuery exFound))
                       (if caseSensitive (findOptions exFound) then ''g'' else ''gi'') = Inr r \<and>
                    str_replace exEnv (p_text (heap exFound ! (panels exFound ! 1))) r
                      (replaceQuery exFound) = p_text (heap exFound ! (panels exFound ! 1)) \<longrightarrow>
                    panels exReplaced ! 1 = panels exFound ! 1"
    by blast
  then have same: "panels exReplaced ! 1 = panels exFound ! 1"
    using exFound_regex unchanged by blast
  from T have "\<exists>ext. heap exReplaced = heap exFound @ ext"
    and "heap exReplaced ! (panels exFound ! 1) = heap exFound ! (panels exFound ! 1)"
    and "length (panels exReplaced) = length (panels exFound)"
    by blast+
  then show ?thesis
    using same exFound_valid exFound_ids exReplaceAll_eq by blast
qed

section \<open>The replacement of Replace All\<close>

text \<open>A replacement without a dollar sign is substituted as it is.\<close>

lemma getSubstitution_literal:
  "CHR ''$'' \<notin> set replaceValue \<Longrightarrow>
   getSubstitution matched str position captures namedCaptures replaceValue = replaceValue"
  by (induction matched str position captures namedCaptures replaceValue
      rule: getSubstitution.induct) auto

lemma exDollar_eq:
  "exDollar = (exState ''a'' False)\<lparr>replaceQuery := ''$&$&'',
                                   matches := [\<lparr>m_panelId = ''a'', m_start = 1, m_end = 2\<rparr>],
                                   activeMatchIndex := Num 0\<rparr>"
  by (simp add: exDollar_def exFound_eq exState_def)

lemma exDollar_replaceAll:
  "handleReplaceAll exEnv exDollar =
     Inr (exDollar\<lparr>heap := heap exDollar @ [\<lparr>p_id = ''a'', p_text = ''xaay'', p_title = ''A''\<rparr>],
                   panels := [2, 1]\<rparr>)"
  by (simp add: exDollar_eq handleReplaceAll_def exState_def exEnv_def exNewRegExp_def
      exReplace_def jsReplace_def asciiLower_def panelObjs_def)

lemma exDollar_replace:
  "handleReplace exDollar =
     Inr (exDollar\<lparr>heap := heap exDollar @ [\<lparr>p_id = ''a'', p_text = ''x$&$&y'', p_title = ''A''\<rparr>],
                   panels := [2, 1]\<rparr>)"
  by (simp add: exDollar_eq handleReplace_def updatePanelText_def exState_def panelObjs_def)

text \<open>
  Claim C7, at a replacement that holds a dollar sign. The claim asks Replace All to put
  the replacement string in the place of every match. With the query \<open>a\<close> (literal
  search), the texts \<open>xay\<close> and \<open>zzz\<close>, the match list the Find Matches effect computes
  and the replacement \<^verbatim>\<open>$&$&\<close>, \<^verbatim>\<open>handleReplaceAll\<close> turns the first text into \<open>xaay\<close>:
  \<^verbatim>\<open>replace\<close> reads the replacement as a pattern and expands \<^verbatim>\<open>$&\<close> to the match.
  \<^verbatim>\<open>handleReplace\<close> on the same match splices the string as it is.
\<close>

theorem replaceAll_expands_replacement_pattern:
  "findQuery exDollar = ''a'' \<and> replaceQuery exDollar = ''$&$&'' \<and>
   useRegex (findOptions exDollar) = False \<and>
   map p_text (panelObjs exDollar) = [''xay'', ''zzz''] \<and>
   matches exDollar = matches (findMatchesEffect exEnv exDollar) \<and>
   (\<exists>st'. handleReplaceAll exEnv exDollar = Inr st' \<and>
          map p_text (panelObjs st') = [''xaay'', ''zzz'']) \<and>
   (\<exists>st'. handleReplace exDollar = Inr st' \<and>
          map p_text (panelObjs st') = [''x$&$&y'', ''zzz''])"
proof -
  have "findQuery exDollar = ''a''" and "replaceQuery exDollar = ''$&$&''"
    and "useRegex (findOptions exDollar) = False"
    and "map p_text (panelObjs exDollar) = [''xay'', ''zzz'']"
    by (simp_all add: exDollar_eq exState_def panelObjs_def)
  moreover have "matches exDollar = matches (findMatchesEffect exEnv exDollar)"
    by (simp add: exDollar_eq findMatchesEffect_def findMatchesTry_def exState_def exEnv_def
        exNewRegExp_def asciiLower_def panelObjs_def)
  moreover have "\<exists>st'. handleReplaceAll exEnv exDollar = Inr st' \<and>
          map p_text (panelObjs st') = [''xaay'', ''zzz'']"
    unfolding exDollar_replaceAll by (simp add: exDollar_eq exState_def panelObjs_def)
  moreover have "\<exists>st'. handleReplace exDollar = Inr st' \<and>
          map p_text (panelObjs st') = [''x$&$&y'', ''zzz'']"
    unfolding exDollar_replace by (simp add: exDollar_eq exState_def panelObjs_def)
  ultimately show ?thesis by (intro conjI)
qed

end
